theory Spec2Isabelle
  imports Main "HOL-Library.Word" "HOL-Library.Sublist" "HOL-Library.AList"
begin

section \<open>Values of the host language\<close>

text \<open>
  The module under study (the application imports it as \<^verbatim>\<open>./git\<close>) holds an
  in-memory file system
  \<^verbatim>\<open>MemoryFS\<close>, the loader \<^verbatim>\<open>loadFilesIntoFs\<close>, the tree walker
  \<^verbatim>\<open>listTreeFiles\<close> and the orchestrator \<^verbatim>\<open>generateDiff\<close>.

  Text is a \<^typ>\<open>string\<close>; the only characters the code inspects are the slash and
  the NUL character. Binary content is a list of bytes.
\<close>

type_synonym byte = "8 word"
type_synonym bytes = "byte list"

text \<open>
  A path or branch-name argument, by what the functions do with it: they compare it
  with \<^verbatim>\<open>undefined\<close> and \<^verbatim>\<open>null\<close>, test its truthiness (\<^verbatim>\<open>!branch\<close>) and
  convert it with \<^verbatim>\<open>String(path)\<close>. Besides \<^verbatim>\<open>undefined\<close>, \<^verbatim>\<open>null\<close> and
  the strings there are
  \<^item> the falsy values that are not strings (\<^verbatim>\<open>0\<close>, \<^verbatim>\<open>NaN\<close>, \<^verbatim>\<open>false\<close>,
    \<^verbatim>\<open>0n\<close>), each with the text \<^verbatim>\<open>String\<close> gives for it, and
  \<^item> the truthy values that are not strings (other numbers, \<^verbatim>\<open>true\<close>, objects), each
    with the text \<^verbatim>\<open>String\<close> gives for it, or with \<open>None\<close> when the conversion
    throws (an object without a primitive conversion, such as
    \<^verbatim>\<open>Object.create(null)\<close>, or one whose \<^verbatim>\<open>toString\<close> throws).
\<close>

datatype js_arg =
  Undefined | Null | Str string | FalsyValue string | TruthyValue "string option"

text \<open>
  An exception value. The file system throws \<^verbatim>\<open>Error\<close> objects whose
  \<^verbatim>\<open>code\<close> is \<^verbatim>\<open>'ENOENT'\<close> (the message is kept); a failed string conversion
  throws an error that has no such code; whatever the repository reader throws is
  opaque to this module.
\<close>

datatype error = ENOENT string | TypeError string | ReaderError string

text \<open>\<^verbatim>\<open>String(v)\<close>: the text, or the exception of the conversion.\<close>

fun String_of :: "js_arg \<Rightarrow> error + string" where
  "String_of Undefined = Inr ''undefined''"
| "String_of Null = Inr ''null''"
| "String_of (Str s) = Inr s"
| "String_of (FalsyValue t) = Inr t"
| "String_of (TruthyValue (Some t)) = Inr t"
| "String_of (TruthyValue None) = Inl (TypeError ''Cannot convert object to primitive value'')"

text \<open>
  \<^verbatim>\<open>TextEncoder\<close> and \<^verbatim>\<open>TextDecoder\<close> belong to the platform, not to this
  module: they are parameters of the model.
\<close>

record text_codec =
  textEncode :: "string \<Rightarrow> bytes"
  textDecode :: "bytes \<Rightarrow> string"

section \<open>Path normalisation\<close>

text \<open>\<^verbatim>\<open>s.replace(/\/+/g, '/')\<close>: every run of slashes becomes one slash.\<close>

fun collapse_slashes :: "string \<Rightarrow> string" where
  "collapse_slashes (c # d # cs) =
     (if c = CHR ''/'' \<and> d = CHR ''/'' then collapse_slashes (d # cs)
      else c # collapse_slashes (d # cs))"
| "collapse_slashes cs = cs"

text \<open>\<^verbatim>\<open>s.replace(/\/+$/, '') || '/'\<close>: trailing slashes go; an empty result is the root.\<close>

definition strip_trailing_slashes :: "string \<Rightarrow> string" where
  "strip_trailing_slashes s = rev (dropWhile (\<lambda>c. c = CHR ''/'') (rev s))"

definition normalize_dir :: "string \<Rightarrow> string" where
  "normalize_dir s = (let t = strip_trailing_slashes s in if t = [] then ''/'' else t)"

text \<open>\<^verbatim>\<open>s.split('/')\<close>: the pieces between slashes, empty pieces included.\<close>

fun split_slash :: "string \<Rightarrow> string list" where
  "split_slash [] = [[]]"
| "split_slash (c # cs) =
     (if c = CHR ''/'' then [] # split_slash cs
      else (case split_slash cs of
              [] \<Rightarrow> [[c]]
            | x # xs \<Rightarrow> (c # x) # xs))"

text \<open>Two slashes in a row somewhere in the text.\<close>

fun dup_slash :: "string \<Rightarrow> bool" where
  "dup_slash (c # d # cs) = ((c = CHR ''/'' \<and> d = CHR ''/'') \<or> dup_slash (d # cs))"
| "dup_slash cs = False"

section \<open>The in-memory file system\<close>

text \<open>
  \<^verbatim>\<open>this.files\<close> is a \<^verbatim>\<open>Map\<close> from path to \<^verbatim>\<open>Uint8Array\<close>,
  \<^verbatim>\<open>this.dirs\<close> a \<^verbatim>\<open>Set\<close> of paths.
\<close>

record memfs =
  files :: "string \<rightharpoonup> bytes"
  dirs :: "string set"

text \<open>The constructor: no file, and the root directory.\<close>

definition MemoryFS_new :: memfs where
  "MemoryFS_new = \<lparr>files = Map.empty, dirs = {''/''}\<rparr>"

text \<open>\<^verbatim>\<open>clear()\<close>.\<close>

definition clear :: "memfs \<Rightarrow> memfs" where
  "clear s = \<lparr>files = Map.empty, dirs = {''/''}\<rparr>"

text \<open>
  \<^verbatim>\<open>_addParentDirs(filePath)\<close>: the non-empty pieces of the path, all but the last,
  are appended one by one to \<^verbatim>\<open>current\<close>, and every value of \<^verbatim>\<open>current\<close> is
  added to the directory set.
\<close>

definition parent_step :: "string \<Rightarrow> string \<times> string set \<Rightarrow> string \<times> string set" where
  "parent_step part st =
     (let current = fst st @ CHR ''/'' # part in (current, insert current (snd st)))"

definition addParentDirs :: "memfs \<Rightarrow> string \<Rightarrow> memfs" where
  "addParentDirs s filePath =
     (let parts = filter (\<lambda>p. p \<noteq> []) (split_slash filePath)
      in s\<lparr>dirs := snd (fold parent_step (butlast parts) ([], dirs s))\<rparr>)"

text \<open>The options of \<^verbatim>\<open>readFile\<close>: only \<^verbatim>\<open>opts?.encoding\<close> is read.\<close>

record read_opts =
  encoding :: "string option"

datatype read_result = Buffer bytes | Text string

definition wants_utf8 :: "read_opts option \<Rightarrow> bool" where
  "wants_utf8 opts = (case opts of None \<Rightarrow> False | Some o' \<Rightarrow> encoding o' = Some ''utf8'')"

text \<open>\<^verbatim>\<open>promises.readFile(path, opts)\<close>.\<close>

definition readFile :: "text_codec \<Rightarrow> memfs \<Rightarrow> js_arg \<Rightarrow> read_opts option \<Rightarrow> error + read_result" where
  "readFile tc s path opts =
     (if path = Undefined \<or> path = Null then Inl (ENOENT ''ENOENT: path is undefined'')
      else
        case String_of path of
          Inl e \<Rightarrow> Inl e
        | Inr p \<Rightarrow>
            (let normalizedPath = collapse_slashes p in
             case files s normalizedPath of
               None \<Rightarrow>
                 Inl (ENOENT (''ENOENT: no such file or directory, open '' @
                              [CHR 0x27] @ normalizedPath @ [CHR 0x27]))
             | Some data \<Rightarrow>
                 if wants_utf8 opts then Inr (Text (textDecode tc data))
                 else Inr (Buffer data)))"

text \<open>
  The data argument of \<^verbatim>\<open>writeFile\<close>: a string, which is encoded, or bytes, which
  \<^verbatim>\<open>new Uint8Array(data)\<close> copies.
\<close>

datatype write_data = DataString string | DataBytes bytes

definition to_Uint8Array :: "text_codec \<Rightarrow> write_data \<Rightarrow> bytes" where
  "to_Uint8Array tc data = (case data of DataString t \<Rightarrow> textEncode tc t | DataBytes b \<Rightarrow> b)"

text \<open>
  \<^verbatim>\<open>promises.writeFile(path, data)\<close>: the state after the call, or the exception
  of the string conversion, thrown before anything is stored.
\<close>

definition writeFile :: "text_codec \<Rightarrow> memfs \<Rightarrow> js_arg \<Rightarrow> write_data \<Rightarrow> error + memfs" where
  "writeFile tc s path data =
     (if path = Undefined \<or> path = Null then Inr s
      else
        case String_of path of
          Inl e \<Rightarrow> Inl e
        | Inr p \<Rightarrow>
            (let normalizedPath = collapse_slashes p
             in Inr (addParentDirs
                       (s\<lparr>files := (files s)(normalizedPath \<mapsto> to_Uint8Array tc data)\<rparr>)
                       normalizedPath)))"

text \<open>\<^verbatim>\<open>promises.mkdir(path)\<close>.\<close>

definition mkdir :: "memfs \<Rightarrow> js_arg \<Rightarrow> error + memfs" where
  "mkdir s path =
     (if path = Undefined \<or> path = Null then Inr s
      else
        case String_of path of
          Inl e \<Rightarrow> Inl e
        | Inr p \<Rightarrow> Inr (s\<lparr>dirs := insert (normalize_dir p) (dirs s)\<rparr>))"

text \<open>
  \<^verbatim>\<open>promises.stat(path)\<close>: the descriptor's \<^verbatim>\<open>type\<close>, \<^verbatim>\<open>mode\<close> and
  \<^verbatim>\<open>size\<close> (its timestamps come from the clock and are left out), and the state,
  since a directory inferred from its children is added to the directory set.
\<close>

datatype file_kind = KindDir | KindFile

record stats =
  kind :: file_kind
  mode :: nat
  size :: nat

definition dir_stats :: stats where
  "dir_stats = \<lparr>kind = KindDir, mode = 16877, size = 0\<rparr>"

definition file_stats :: "bytes \<Rightarrow> stats" where
  "file_stats data = \<lparr>kind = KindFile, mode = 33188, size = length data\<rparr>"

definition stat :: "memfs \<Rightarrow> js_arg \<Rightarrow> memfs \<times> (error + stats)" where
  "stat s path =
     (if path = Undefined \<or> path = Null then (s, Inl (ENOENT ''ENOENT: path is undefined''))
      else
        case String_of path of
          Inl e \<Rightarrow> (s, Inl e)
        | Inr p \<Rightarrow>
            (let normalizedPath = normalize_dir p in
             if normalizedPath \<in> dirs s then (s, Inr dir_stats)
             else
               case files s normalizedPath of
                 Some data \<Rightarrow> (s, Inr (file_stats data))
               | None \<Rightarrow>
                   if \<exists>q \<in> dom (files s) \<union> dirs s. prefix (normalizedPath @ ''/'') q
                   then (s\<lparr>dirs := insert normalizedPath (dirs s)\<rparr>, Inr dir_stats)
                   else (s, Inl (ENOENT (''ENOENT: no such file or directory, stat '' @
                                         [CHR 0x27] @ normalizedPath @ [CHR 0x27])))))"

section \<open>Ingestion\<close>

text \<open>
  An uploaded file: its \<^verbatim>\<open>webkitRelativePath\<close> and the bytes its
  \<^verbatim>\<open>arrayBuffer()\<close> yields.
\<close>

record upload_file =
  webkitRelativePath :: string
  arrayBuffer :: bytes

text \<open>
  The module-level state: the file system \<^verbatim>\<open>fs\<close> and the reader's cache
  \<^verbatim>\<open>gitCache\<close>, an object only the reader fills (\<^verbatim>\<open>{}\<close> is the empty list).
\<close>

record core_state =
  fs :: memfs
  gitCache :: "(string \<times> bytes) list"

definition initial_state :: core_state where
  "initial_state = \<lparr>fs = MemoryFS_new, gitCache = []\<rparr>"

text \<open>\<^verbatim>\<open>p.split('/')[0]\<close>.\<close>

definition first_segment :: "string \<Rightarrow> string" where
  "first_segment p = (case split_slash p of [] \<Rightarrow> [] | x # _ \<Rightarrow> x)"

text \<open>
  The body of the loop of \<^verbatim>\<open>loadFilesIntoFs\<close>: the module state after it and
  whether it completed (\<open>Inr\<close>) or threw.
\<close>

definition load_file ::
  "text_codec \<Rightarrow> string \<Rightarrow> upload_file \<Rightarrow> core_state \<Rightarrow> core_state \<times> (error + unit)" where
  "load_file tc rootPrefix file st =
     (let relativePath = drop (length rootPrefix) (webkitRelativePath file) in
      if relativePath = [] \<or> relativePath = ''/'' then (st, Inr ())
      else
        let path = (if prefix ''/'' relativePath then relativePath else CHR ''/'' # relativePath)
        in case writeFile tc (fs st) (Str path) (DataBytes (arrayBuffer file)) of
             Inl e \<Rightarrow> (st, Inl e)
           | Inr s' \<Rightarrow> (st\<lparr>fs := s'\<rparr>, Inr ()))"

text \<open>The loop \<^verbatim>\<open>for (const file of files)\<close>: it stops at the first exception.\<close>

fun load_files ::
  "text_codec \<Rightarrow> string \<Rightarrow> upload_file list \<Rightarrow> core_state \<Rightarrow> core_state \<times> (error + unit)" where
  "load_files tc rootPrefix [] st = (st, Inr ())"
| "load_files tc rootPrefix (file # rest) st =
     (case load_file tc rootPrefix file st of
        (st', Inl e) \<Rightarrow> (st', Inl e)
      | (st', Inr u) \<Rightarrow> load_files tc rootPrefix rest st')"

text \<open>
  \<^verbatim>\<open>loadFilesIntoFs(files)\<close>: the module state after the call and its outcome.
\<close>

definition loadFilesIntoFs ::
  "text_codec \<Rightarrow> core_state \<Rightarrow> upload_file list \<Rightarrow> core_state \<times> (error + unit)" where
  "loadFilesIntoFs tc st fileList =
     (case fileList of
        [] \<Rightarrow> (st, Inr ())
      | f # _ \<Rightarrow>
          (let st1 = \<lparr>fs = clear (fs st), gitCache = []\<rparr>;
               rootPrefix = first_segment (webkitRelativePath f)
           in load_files tc rootPrefix fileList st1))"

section \<open>Plain objects as dictionaries\<close>

text \<open>
  A tree index is a plain object created by \<^verbatim>\<open>{}\<close>: its own string-valued
  properties, kept here in insertion order, and the members it inherits from
  \<^verbatim>\<open>Object.prototype\<close>. (\<^verbatim>\<open>Object.keys\<close> lists integer-like keys first; no
  property below depends on the order of the keys.)
\<close>

type_synonym js_object = "(string \<times> string) list"

definition Object_prototype_names :: "string list" where
  "Object_prototype_names =
     [''constructor'', ''__defineGetter__'', ''__defineSetter__'', ''hasOwnProperty'',
      ''__lookupGetter__'', ''__lookupSetter__'', ''isPrototypeOf'',
      ''propertyIsEnumerable'', ''toString'', ''valueOf'', ''__proto__'',
      ''toLocaleString'']"

text \<open>
  What a property read can yield: \<^verbatim>\<open>undefined\<close>, \<^verbatim>\<open>null\<close> (from
  \<^verbatim>\<open>|| null\<close>), an own string, or an inherited member of the prototype (a function
  or the prototype object, named by its key).
\<close>

datatype js_value = VUndefined | VNull | VString string | VInherited string

text \<open>\<^verbatim>\<open>obj[key]\<close>: an own property first, then the prototype.\<close>

definition get_prop :: "js_object \<Rightarrow> string \<Rightarrow> js_value" where
  "get_prop obj k =
     (case map_of obj k of
        Some v \<Rightarrow> VString v
      | None \<Rightarrow> if k \<in> set Object_prototype_names then VInherited k else VUndefined)"

text \<open>
  \<^verbatim>\<open>obj[key] = v\<close> for a string \<^verbatim>\<open>v\<close>: an own property is created or
  overwritten in place, except that the inherited setter of \<^verbatim>\<open>__proto__\<close> ignores
  a string.
\<close>

definition set_prop :: "js_object \<Rightarrow> string \<Rightarrow> string \<Rightarrow> js_object" where
  "set_prop obj k v = (if k = ''__proto__'' then obj else AList.update k v obj)"

text \<open>\<^verbatim>\<open>Object.keys(obj)\<close>.\<close>

definition Object_keys :: "js_object \<Rightarrow> string list" where
  "Object_keys obj = map fst obj"

fun truthy :: "js_value \<Rightarrow> bool" where
  "truthy VUndefined = False"
| "truthy VNull = False"
| "truthy (VString s) = (s \<noteq> [])"
| "truthy (VInherited k) = True"

text \<open>\<^verbatim>\<open>v || null\<close>.\<close>

definition or_null :: "js_value \<Rightarrow> js_value" where
  "or_null v = (if truthy v then v else VNull)"

text \<open>\<^verbatim>\<open>new Set(xs)\<close>, iterated: the elements in order of first insertion.\<close>

definition Set_add :: "string list \<Rightarrow> string \<Rightarrow> string list" where
  "Set_add acc x = (if x \<in> set acc then acc else acc @ [x])"

definition new_Set :: "string list \<Rightarrow> string list" where
  "new_Set xs = fold (\<lambda>x acc. Set_add acc x) xs []"

section \<open>The repository reader and the text differencer\<close>

datatype entry_type = Blob | Tree | OtherType

record tree_entry =
  entry_path :: string
  entry_oid :: string
  entry_type :: entry_type

record hunk =
  header :: string
  lines :: "string list"

record parsed_patch =
  patch_hunks :: "hunk list"

text \<open>
  The collaborators, as functions: \<^verbatim>\<open>git.resolveRef\<close>, \<^verbatim>\<open>git.readCommit\<close>
  (the \<^verbatim>\<open>tree\<close> of the commit it returns), \<^verbatim>\<open>git.readTree\<close> (its
  \<^verbatim>\<open>tree\<close> entries), \<^verbatim>\<open>git.readBlob\<close> (its \<^verbatim>\<open>blob\<close>; the argument
  is whatever value the orchestrator passes as \<^verbatim>\<open>oid\<close>), \<^verbatim>\<open>diff.createPatch\<close>
  and \<^verbatim>\<open>diff.parsePatch\<close>. A rejected promise is \<open>Inl\<close>. The branch arguments
  reach \<^verbatim>\<open>resolveRef\<close> (as \<^verbatim>\<open>ref\<close>) and \<^verbatim>\<open>createPatch\<close> (as the two
  labels) as they were given, with no conversion.
\<close>

record collaborators =
  codec :: text_codec
  resolveRef :: "js_arg \<Rightarrow> error + string"
  readCommit :: "string \<Rightarrow> error + string"
  readTree :: "string \<Rightarrow> error + tree_entry list"
  readBlob :: "js_value \<Rightarrow> error + bytes"
  createPatch :: "string \<Rightarrow> string \<Rightarrow> string \<Rightarrow> js_arg \<Rightarrow> js_arg \<Rightarrow> string"
  parsePatch :: "string \<Rightarrow> parsed_patch list"

text \<open>The calls made to the repository reader, in order.\<close>

datatype git_call =
  ResolveRef js_arg | ReadCommit string | ReadTree string | ReadBlob js_value

section \<open>The tree walker\<close>

text \<open>
  \<^verbatim>\<open>walkTree\<close> mutates the \<^verbatim>\<open>fileMap\<close> of the enclosing
  \<^verbatim>\<open>listTreeFiles\<close>: the model passes the object along and returns it, also when
  the walk throws. The recursion follows the object graph the reader returns, so it
  carries fuel (the depth still allowed); \<open>None\<close> stands for a walk that needs more.
\<close>

type_synonym walk_result = "git_call list \<times> js_object \<times> (error + unit)"

text \<open>The \<^verbatim>\<open>for (const entry of tree)\<close> loop; \<open>walk\<close> is the recursive call.\<close>

fun walkEntries ::
  "(string \<Rightarrow> string \<Rightarrow> js_object \<Rightarrow> walk_result option) \<Rightarrow>
   tree_entry list \<Rightarrow> string \<Rightarrow> js_object \<Rightarrow> walk_result option" where
  "walkEntries walk [] pre fileMap = Some ([], fileMap, Inr ())"
| "walkEntries walk (entry # rest) pre fileMap =
     (let fullPath = (if pre \<noteq> [] then pre @ ''/'' @ entry_path entry else entry_path entry) in
      case entry_type entry of
        Blob \<Rightarrow> walkEntries walk rest pre (set_prop fileMap fullPath (entry_oid entry))
      | Tree \<Rightarrow>
          (case walk (entry_oid entry) fullPath fileMap of
             None \<Rightarrow> None
           | Some (cs, fileMap', Inl e) \<Rightarrow> Some (cs, fileMap', Inl e)
           | Some (cs, fileMap', Inr u) \<Rightarrow>
               (case walkEntries walk rest pre fileMap' of
                  None \<Rightarrow> None
                | Some (cs', fileMap'', r) \<Rightarrow> Some (cs @ cs', fileMap'', r)))
      | OtherType \<Rightarrow> walkEntries walk rest pre fileMap)"

primrec walkTree ::
  "nat \<Rightarrow> collaborators \<Rightarrow> string \<Rightarrow> string \<Rightarrow> js_object \<Rightarrow> walk_result option" where
  "walkTree 0 g oid pre fileMap = None"
| "walkTree (Suc n) g oid pre fileMap =
     (case readTree g oid of
        Inl e \<Rightarrow> Some ([ReadTree oid], fileMap, Inl e)
      | Inr entries \<Rightarrow>
          (case walkEntries (walkTree n g) entries pre fileMap of
             None \<Rightarrow> None
           | Some (cs, fileMap', r) \<Rightarrow> Some (ReadTree oid # cs, fileMap', r)))"

text \<open>
  \<^verbatim>\<open>listTreeFiles(treeOid)\<close>: a fresh \<^verbatim>\<open>fileMap\<close>, returned only when the walk
  returns; when the walk throws, the exception leaves and the object is dropped.
\<close>

definition listTreeFiles ::
  "nat \<Rightarrow> collaborators \<Rightarrow> string \<Rightarrow> (git_call list \<times> (error + js_object)) option" where
  "listTreeFiles fuel g treeOid =
     (case walkTree fuel g treeOid [] [] of
        None \<Rightarrow> None
      | Some (cs, fileMap, Inl e) \<Rightarrow> Some (cs, Inl e)
      | Some (cs, fileMap, Inr u) \<Rightarrow> Some (cs, Inr fileMap))"

section \<open>The diff orchestrator\<close>

datatype status = Added | Modified | Deleted

record FileDiffResult =
  filename :: string
  status :: status
  hunks :: "hunk list"

text \<open>
  \<^verbatim>\<open>let status = 'modified'; if (!baseOid) status = 'added';
  if (!compareOid) status = 'deleted';\<close>
\<close>

definition status_of :: "js_value \<Rightarrow> js_value \<Rightarrow> status" where
  "status_of baseOid compareOid =
     (let status0 = Modified;
          status1 = (if \<not> truthy baseOid then Added else status0);
          status2 = (if \<not> truthy compareOid then Deleted else status1)
      in status2)"

text \<open>
  One \<^verbatim>\<open>try { if (oid) { blob = readBlob(oid); text = decode(blob) } }\<close> block: the
  text starts as the empty string; \<open>Inl\<close> is the \<^verbatim>\<open>catch\<close> branch.
\<close>

definition fetchText :: "collaborators \<Rightarrow> js_value \<Rightarrow> git_call list \<times> (error + string)" where
  "fetchText g oid =
     (if truthy oid then
        (case readBlob g oid of
           Inl e \<Rightarrow> ([ReadBlob oid], Inl e)
         | Inr blob \<Rightarrow> ([ReadBlob oid], Inr (textDecode (codec g) blob)))
      else ([], Inr []))"

text \<open>\<^verbatim>\<open>text.includes('\0')\<close>.\<close>

definition isBinary :: "string \<Rightarrow> bool" where
  "isBinary t = (CHR 0x00 \<in> set t)"

text \<open>
  The body of \<^verbatim>\<open>for (const filepath of allPaths)\<close>: the calls it makes and the
  entry it pushes, if any.
\<close>

definition diffPath ::
  "collaborators \<Rightarrow> js_arg \<Rightarrow> js_arg \<Rightarrow> js_object \<Rightarrow> js_object \<Rightarrow> string \<Rightarrow>
   git_call list \<times> FileDiffResult option" where
  "diffPath g baseBranch compareBranch baseFiles compareFiles filepath =
     (let baseOid = or_null (get_prop baseFiles filepath);
          compareOid = or_null (get_prop compareFiles filepath)
      in
      if baseOid = compareOid then ([], None)
      else
        let st = status_of baseOid compareOid in
        case fetchText g baseOid of
          (cs1, Inl e) \<Rightarrow> (cs1, None)
        | (cs1, Inr baseText) \<Rightarrow>
            (case fetchText g compareOid of
               (cs2, Inl e) \<Rightarrow> (cs1 @ cs2, None)
             | (cs2, Inr compareText) \<Rightarrow>
                 if isBinary baseText \<or> isBinary compareText then (cs1 @ cs2, None)
                 else
                   let patch = createPatch g filepath baseText compareText baseBranch compareBranch;
                       parsedPatch = parsePatch g patch
                   in case parsedPatch of
                        [] \<Rightarrow> (cs1 @ cs2, None)
                      | p # ps \<Rightarrow>
                          if patch_hunks p \<noteq> [] then
                            (cs1 @ cs2,
                             Some \<lparr>filename = filepath, status = st, hunks = patch_hunks p\<rparr>)
                          else (cs1 @ cs2, None)))"

fun diffLoop ::
  "collaborators \<Rightarrow> js_arg \<Rightarrow> js_arg \<Rightarrow> js_object \<Rightarrow> js_object \<Rightarrow> string list \<Rightarrow>
   git_call list \<times> FileDiffResult list" where
  "diffLoop g baseBranch compareBranch baseFiles compareFiles [] = ([], [])"
| "diffLoop g baseBranch compareBranch baseFiles compareFiles (filepath # paths) =
     (case diffPath g baseBranch compareBranch baseFiles compareFiles filepath of
        (cs, r) \<Rightarrow>
          (case diffLoop g baseBranch compareBranch baseFiles compareFiles paths of
             (cs', rs) \<Rightarrow> (cs @ cs', (case r of None \<Rightarrow> rs | Some d \<Rightarrow> d # rs))))"

text \<open>
  The reconciliation, from \<^verbatim>\<open>const allPaths = new Set([...])\<close> to
  \<^verbatim>\<open>return diffResults\<close>.
\<close>

definition allPaths :: "js_object \<Rightarrow> js_object \<Rightarrow> string list" where
  "allPaths baseFiles compareFiles = new_Set (Object_keys baseFiles @ Object_keys compareFiles)"

definition diffTrees ::
  "collaborators \<Rightarrow> js_arg \<Rightarrow> js_arg \<Rightarrow> js_object \<Rightarrow> js_object \<Rightarrow>
   git_call list \<times> FileDiffResult list" where
  "diffTrees g baseBranch compareBranch baseFiles compareFiles =
     diffLoop g baseBranch compareBranch baseFiles compareFiles (allPaths baseFiles compareFiles)"

text \<open>
  \<^verbatim>\<open>!branch\<close>: \<^verbatim>\<open>undefined\<close>, \<^verbatim>\<open>null\<close>, the empty string and the falsy
  values that are not strings (\<^verbatim>\<open>0\<close>, \<^verbatim>\<open>NaN\<close>, \<^verbatim>\<open>false\<close>) are falsy; every
  other value is truthy.
\<close>

fun falsy :: "js_arg \<Rightarrow> bool" where
  "falsy Undefined = True"
| "falsy Null = True"
| "falsy (Str s) = (s = [])"
| "falsy (FalsyValue t) = True"
| "falsy (TruthyValue t) = False"

text \<open>
  \<^verbatim>\<open>let files = {}; try { files = await listTreeFiles(tree) } catch (e) { ... }\<close>:
  the object the reconciliation uses for that side.
\<close>

definition files_or_empty :: "error + js_object \<Rightarrow> js_object" where
  "files_or_empty r = (case r of Inl e \<Rightarrow> [] | Inr fileMap \<Rightarrow> fileMap)"

text \<open>
  \<^verbatim>\<open>generateDiff(baseBranch, compareBranch)\<close>: the calls made to the reader and the
  outcome (\<open>Inl\<close>: the promise is rejected); \<open>None\<close> when a tree walk needs more fuel.
\<close>

definition generateDiff ::
  "nat \<Rightarrow> collaborators \<Rightarrow> js_arg \<Rightarrow> js_arg \<Rightarrow>
   (git_call list \<times> (error + FileDiffResult list)) option" where
  "generateDiff fuel g baseBranch compareBranch =
     (if falsy baseBranch \<or> falsy compareBranch then Some ([], Inr [])
      else
        case resolveRef g baseBranch of
          Inl e \<Rightarrow> Some ([ResolveRef baseBranch], Inl e)
        | Inr baseCommit \<Rightarrow>
        (case resolveRef g compareBranch of
          Inl e \<Rightarrow> Some ([ResolveRef baseBranch, ResolveRef compareBranch], Inl e)
        | Inr compareCommit \<Rightarrow>
        if baseCommit = compareCommit
        then Some ([ResolveRef baseBranch, ResolveRef compareBranch], Inr [])
        else
        (case readCommit g baseCommit of
          Inl e \<Rightarrow>
            Some ([ResolveRef baseBranch, ResolveRef compareBranch, ReadCommit baseCommit],
                  Inl e)
        | Inr baseTree \<Rightarrow>
        (case readCommit g compareCommit of
          Inl e \<Rightarrow>
            Some ([ResolveRef baseBranch, ResolveRef compareBranch, ReadCommit baseCommit,
                   ReadCommit compareCommit], Inl e)
        | Inr compareTree \<Rightarrow>
        (case listTreeFiles fuel g baseTree of
          None \<Rightarrow> None
        | Some (cs1, r1) \<Rightarrow>
        (case listTreeFiles fuel g compareTree of
          None \<Rightarrow> None
        | Some (cs2, r2) \<Rightarrow>
        (case diffTrees g baseBranch compareBranch (files_or_empty r1) (files_or_empty r2) of
          (cs3, diffResults) \<Rightarrow>
            Some ([ResolveRef baseBranch, ResolveRef compareBranch, ReadCommit baseCommit,
                   ReadCommit compareCommit] @ cs1 @ cs2 @ cs3, Inr diffResults))))))))"

section \<open>Ancestors and operation sequences\<close>

text \<open>
  The notions the invariants below are stated with. A path lies under a directory when
  it starts with the directory's prefix, as \<^verbatim>\<open>readdir\<close> computes it
  (\<^verbatim>\<open>normalizedPath === '/' ? '/' : normalizedPath + '/'\<close>), and is longer than that
  prefix; the directory is then an ancestor of the path.
\<close>

definition dir_prefix :: "string \<Rightarrow> string" where
  "dir_prefix d = (if d = ''/'' then ''/'' else d @ ''/'')"

definition is_ancestor :: "string \<Rightarrow> string \<Rightarrow> bool" where
  "is_ancestor d p = (d \<noteq> [] \<and> strict_prefix (dir_prefix d) p)"

text \<open>The root and every ancestor of every stored file path are in the directory set.\<close>

definition ancestors_recorded :: "memfs \<Rightarrow> bool" where
  "ancestors_recorded s =
     (''/'' \<in> dirs s \<and> (\<forall>p \<in> dom (files s). \<forall>d. is_ancestor d p \<longrightarrow> d \<in> dirs s))"

text \<open>
  Sequences of \<^verbatim>\<open>writeFile\<close> and \<^verbatim>\<open>mkdir\<close> calls: the state after each call,
  which is the state before it when the call throws.
\<close>

datatype fs_op = WriteOp js_arg write_data | MkdirOp js_arg

fun apply_op :: "text_codec \<Rightarrow> fs_op \<Rightarrow> memfs \<Rightarrow> memfs" where
  "apply_op tc (WriteOp path data) s =
     (case writeFile tc s path data of Inl e \<Rightarrow> s | Inr s' \<Rightarrow> s')"
| "apply_op tc (MkdirOp path) s =
     (case mkdir s path of Inl e \<Rightarrow> s | Inr s' \<Rightarrow> s')"

definition run_ops :: "text_codec \<Rightarrow> fs_op list \<Rightarrow> memfs \<Rightarrow> memfs" where
  "run_ops tc ops s = fold (apply_op tc) ops s"

text \<open>
  A write whose path, when the write stores something, has a text that starts with a
  slash.
\<close>

fun absolute_write :: "fs_op \<Rightarrow> bool" where
  "absolute_write (WriteOp path data) =
     (path = Undefined \<or> path = Null \<or>
      (case String_of path of Inl e \<Rightarrow> True | Inr p \<Rightarrow> prefix ''/'' p))"
| "absolute_write (MkdirOp path) = True"


section \<open>A sample environment\<close>

text \<open>
  Concrete collaborators on which the theorems are instantiated: a codec that maps a
  byte to the character with the same code, a differencer that reports one hunk when
  the two texts differ, and a reader over two branches. The tree of \<^verbatim>\<open>main\<close>
  lists a blob and then a subtree whose object is missing; the tree of \<^verbatim>\<open>dev\<close>
  lists a text blob and a blob with a NUL byte.
\<close>

definition ascii_codec :: text_codec where
  "ascii_codec = \<lparr>textEncode = map (\<lambda>c. of_nat (of_char c)), textDecode = map (\<lambda>b. char_of (unat b))\<rparr>"

definition sample_differ_create :: "string \<Rightarrow> string \<Rightarrow> string \<Rightarrow> js_arg \<Rightarrow> js_arg \<Rightarrow> string" where
  "sample_differ_create name a b la lb = (if a = b then [] else name)"

definition sample_differ_parse :: "string \<Rightarrow> parsed_patch list" where
  "sample_differ_parse t =
     [\<lparr>patch_hunks = (if t = [] then [] else [\<lparr>header = ''@@'', lines = [t]\<rparr>])\<rparr>]"

definition sample_reader :: collaborators where
  "sample_reader =
     \<lparr>codec = ascii_codec,
      resolveRef = (\<lambda>r. if r = Str ''main'' then Inr ''c1''
                         else if r = Str ''dev'' then Inr ''c2''
                         else if r = Str ''alias'' then Inr ''c1''
                         else Inl (ReaderError ''NotFoundError'')),
      readCommit = (\<lambda>c. if c = ''c1'' then Inr ''t1'' else if c = ''c2'' then Inr ''t2''
                         else Inl (ReaderError ''NotFoundError'')),
      readTree = (\<lambda>t. if t = ''t1'' then
                          Inr [\<lparr>entry_path = ''a.txt'', entry_oid = ''b1'', entry_type = Blob\<rparr>,
                               \<lparr>entry_path = ''sub'', entry_oid = ''t9'', entry_type = Tree\<rparr>]
                        else if t = ''t2'' then
                          Inr [\<lparr>entry_path = ''a.txt'', entry_oid = ''b2'', entry_type = Blob\<rparr>,
                               \<lparr>entry_path = ''bin.dat'', entry_oid = ''b3'', entry_type = Blob\<rparr>]
                        else Inl (ReaderError ''NotFoundError'')),
      readBlob = (\<lambda>v. if v = VString ''b1'' then Inr [104, 105]
                        else if v = VString ''b2'' then Inr [104, 111]
                        else if v = VString ''b3'' then Inr [1, 0, 2]
                        else Inl (ReaderError ''NotFoundError'')),
      createPatch = sample_differ_create,
      parsePatch = sample_differ_parse\<rparr>"

text \<open>Two uploads: the second shares no path with the first but \<^verbatim>\<open>/a.txt\<close>.\<close>

definition repoA :: "upload_file list" where
  "repoA = [\<lparr>webkitRelativePath = ''repoA/a.txt'', arrayBuffer = [1]\<rparr>,
            \<lparr>webkitRelativePath = ''repoA/sub/old.txt'', arrayBuffer = [2]\<rparr>]"

definition repoB :: "upload_file list" where
  "repoB = [\<lparr>webkitRelativePath = ''repoB/a.txt'', arrayBuffer = [3]\<rparr>]"

section \<open>Notions used by the orchestrator's properties\<close>

text \<open>
  The text fetched for a path on the side whose tree index is \<open>fileMap\<close>: the outcome
  of that side's \<^verbatim>\<open>try\<close> block in the loop of \<^verbatim>\<open>generateDiff\<close>.
\<close>

definition fetched_text :: "collaborators \<Rightarrow> js_object \<Rightarrow> string \<Rightarrow> error + string" where
  "fetched_text g fileMap p = snd (fetchText g (or_null (get_prop fileMap p)))"

text \<open>Every content identifier of a tree index is a non-empty string.\<close>

definition real_oids :: "js_object \<Rightarrow> bool" where
  "real_oids fileMap = (\<forall>v \<in> snd ` set fileMap. v \<noteq> [])"

section \<open>Failed tree reads\<close>

text \<open>Some tree read among the calls of a walk throws.\<close>

definition read_fails :: "collaborators \<Rightarrow> git_call list \<Rightarrow> bool" where
  "read_fails g cs = (\<exists>t \<in> set cs. case t of ReadTree oid \<Rightarrow> isl (readTree g oid) | _ \<Rightarrow> False)"

section \<open>Properties of the file system\<close>

lemma files_addParentDirs: "files (addParentDirs s p) = files s"
  by (simp add: addParentDirs_def Let_def)

lemma collapse_hd: "\<exists>r. collapse_slashes (d # cs) = d # r"
  by (induction cs arbitrary: d) auto

lemma dup_slash_Cons:
  "dup_slash (c # s) = (case s of [] \<Rightarrow> False | d # cs \<Rightarrow> (c = CHR ''/'' \<and> d = CHR ''/'') \<or> dup_slash s)"
  by (cases s) auto

lemma not_dup_collapse: "\<not> dup_slash (collapse_slashes p)"
proof (induction p rule: collapse_slashes.induct)
  case (1 c d cs)
  obtain r where r: "collapse_slashes (d # cs) = d # r"
    using collapse_hd by blast
  with 1 show ?case
    by (auto simp: dup_slash_Cons)
qed simp_all



lemma dup_slash_iff: "dup_slash s = (\<exists>a b. s = a @ CHR ''/'' # CHR ''/'' # b)"
proof (induction s rule: dup_slash.induct)
  case (1 c d cs)
  show ?case
  proof
    assume "dup_slash (c # d # cs)"
    then consider "c = CHR ''/'' \<and> d = CHR ''/''" | "dup_slash (d # cs)" by auto
    then show "\<exists>a b. c # d # cs = a @ CHR ''/'' # CHR ''/'' # b"
    proof cases
      case 1
      then have "c # d # cs = [] @ CHR ''/'' # CHR ''/'' # cs" by simp
      then show ?thesis by blast
    next
      case 2
      with "1.IH" obtain a b where "d # cs = a @ CHR ''/'' # CHR ''/'' # b" by blast
      then have "c # d # cs = (c # a) @ CHR ''/'' # CHR ''/'' # b" by simp
      then show ?thesis by blast
    qed
  next
    assume "\<exists>a b. c # d # cs = a @ CHR ''/'' # CHR ''/'' # b"
    then obtain a b where ab: "c # d # cs = a @ CHR ''/'' # CHR ''/'' # b" by blast
    show "dup_slash (c # d # cs)"
    proof (cases a)
      case Nil
      with ab show ?thesis by simp
    next
      case (Cons x a')
      with ab have "d # cs = a' @ CHR ''/'' # CHR ''/'' # b" by simp
      then have "dup_slash (d # cs)" using "1.IH" by blast
      then show ?thesis by simp
    qed
  qed
qed (auto simp: Cons_eq_append_conv)

lemma split_ne: "split_slash s \<noteq> []"
  by (induction s) (auto split: list.splits)

lemma split_append: "split_slash (q @ CHR ''/'' # r) = split_slash q @ split_slash r"
  by (induction q) (auto split: list.splits simp: split_ne)

lemma join_split: "concat (map ((#) CHR ''/'') (split_slash s)) = CHR ''/'' # s"
  by (induction s) (auto split: list.splits simp: split_ne)

lemma hd_split_empty: "(hd (split_slash s) = []) = (s = [] \<or> hd s = CHR ''/'')"
  by (induction s) (auto split: list.splits simp: split_ne)

lemma tl_split_empty:
  "([] \<in> set (tl (split_slash s))) = ((s \<noteq> [] \<and> last s = CHR ''/'') \<or> dup_slash s)"
proof (induction s)
  case Nil
  then show ?case by simp
next
  case (Cons c s)
  have mem: "([] \<in> set (split_slash s)) = (hd (split_slash s) = [] \<or> [] \<in> set (tl (split_slash s)))"
    using split_ne [of s] by (cases "split_slash s") auto
  show ?case
  proof (cases "c = CHR ''/''")
    case True
    then show ?thesis
      using Cons mem hd_split_empty [of s]
      by (cases s) (auto simp: dup_slash_Cons)
  next
    case False
    then show ?thesis
      using Cons split_ne [of s]
      by (cases s; cases "split_slash s") (auto simp: dup_slash_Cons)
  qed
qed

lemma split_all_nonempty:
  assumes "s \<noteq> []" "hd s \<noteq> CHR ''/''" "last s \<noteq> CHR ''/''" "\<not> dup_slash s"
  shows "[] \<notin> set (split_slash s)"
proof -
  have "hd (split_slash s) \<noteq> []" using assms hd_split_empty by blast
  moreover have "[] \<notin> set (tl (split_slash s))" using assms tl_split_empty by blast
  ultimately show ?thesis
    using split_ne [of s] by (cases "split_slash s") auto
qed

lemma fold_parent_step:
  "snd (fold parent_step xs (cur, ds)) =
     ds \<union> {cur @ concat (map ((#) CHR ''/'') (take i xs)) | i. 0 < i \<and> i \<le> length xs}"
proof (induction xs arbitrary: cur ds)
  case Nil
  then show ?case by simp
next
  case (Cons x xs)
  have "{cur @ concat (map ((#) CHR ''/'') (take i (x # xs))) | i. 0 < i \<and> i \<le> length (x # xs)}
        = insert (cur @ CHR ''/'' # x)
            {(cur @ CHR ''/'' # x) @ concat (map ((#) CHR ''/'') (take i xs)) | i. 0 < i \<and> i \<le> length xs}"
    (is "?L = ?R")
  proof
    show "?L \<subseteq> ?R"
    proof
      fix y assume "y \<in> ?L"
      then obtain i where i: "0 < i" "i \<le> length (x # xs)"
        and y: "y = cur @ concat (map ((#) CHR ''/'') (take i (x # xs)))" by blast
      then obtain j where j: "i = Suc j" by (cases i) auto
      show "y \<in> ?R"
      proof (cases j)
        case 0
        with y j show ?thesis by simp
      next
        case (Suc k)
        with y j i have "y = (cur @ CHR ''/'' # x) @ concat (map ((#) CHR ''/'') (take j xs))"
          "0 < j" "j \<le> length xs" by auto
        then show ?thesis by blast
      qed
    qed
    show "?R \<subseteq> ?L"
    proof
      fix y assume "y \<in> ?R"
      then consider "y = cur @ CHR ''/'' # x"
        | i where "0 < i" "i \<le> length xs" "y = (cur @ CHR ''/'' # x) @ concat (map ((#) CHR ''/'') (take i xs))"
        by blast
      then show "y \<in> ?L"
      proof cases
        case 1
        then have "y = cur @ concat (map ((#) CHR ''/'') (take 1 (x # xs)))" by simp
        moreover have "0 < (1::nat)" "1 \<le> length (x # xs)" by auto
        ultimately show ?thesis by blast
      next
        case 2
        then have "y = cur @ concat (map ((#) CHR ''/'') (take (Suc i) (x # xs)))" by simp
        moreover have "0 < Suc i" "Suc i \<le> length (x # xs)" using 2 by auto
        ultimately show ?thesis by blast
      qed
    qed
  qed
  then show ?case
    using Cons.IH [of "cur @ CHR ''/'' # x" "insert (cur @ CHR ''/'' # x) ds"]
    by (simp add: parent_step_def Let_def)
qed

lemma dirs_addParentDirs_mono: "dirs s \<subseteq> dirs (addParentDirs s p)"
  by (auto simp: addParentDirs_def Let_def fold_parent_step)










text \<open>
  Claim C6, as amended. \<^verbatim>\<open>readFile\<close> fails with an ENOENT error exactly when the path
  is \<^verbatim>\<open>undefined\<close>, \<^verbatim>\<open>null\<close>, or has a text that, with its runs of slashes
  collapsed, has no entry in the content store. The only other error it throws is the
  one that the string conversion of the path throws; for every input that has a
  string conversion there is none.
\<close>

theorem readFile_ENOENT_iff:
  "((\<exists>msg. readFile tc s path opts = Inl (ENOENT msg)) \<longleftrightarrow>
      (path = Undefined \<or> path = Null \<or>
       (\<exists>p. String_of path = Inr p \<and> files s (collapse_slashes p) = None))) \<and>
   (\<forall>e. readFile tc s path opts = Inl e \<longrightarrow>
      (\<exists>msg. e = ENOENT msg) \<or>
      (path \<noteq> Undefined \<and> path \<noteq> Null \<and> String_of path = Inl e)) \<and>
   ((\<exists>p. String_of path = Inr p) \<longrightarrow>
      (\<forall>e. readFile tc s path opts = Inl e \<longrightarrow> (\<exists>msg. e = ENOENT msg)))"
proof (cases "path = Undefined \<or> path = Null")
  case True
  then show ?thesis by (auto simp: readFile_def)
next
  case False
  show ?thesis
  proof (cases "String_of path")
    case (Inl e)
    then have "\<exists>t. e = TypeError t" by (cases path rule: String_of.cases) auto
    with False Inl show ?thesis by (auto simp: readFile_def)
  next
    case (Inr p)
    with False show ?thesis
      by (auto simp: readFile_def Let_def split: option.splits)
  qed
qed

text \<open>
  An instance of each side: a missing path fails with ENOENT, a stored one is read.
\<close>

theorem readFile_ENOENT_iff_witness:
  "String_of (Str ''/missing'') = Inr ''/missing'' \<and>
   (\<exists>msg. readFile ascii_codec MemoryFS_new (Str ''/missing'') None = Inl (ENOENT msg)) \<and>
   (case writeFile ascii_codec MemoryFS_new (Str ''/a'') (DataBytes [1]) of
      Inl e \<Rightarrow> False
    | Inr s' \<Rightarrow> readFile ascii_codec s' (Str ''/a'') None = Inr (Buffer [1]))"
  using readFile_ENOENT_iff [of ascii_codec MemoryFS_new "Str ''/missing''" None]
  by (simp add: MemoryFS_new_def writeFile_def files_addParentDirs readFile_def wants_utf8_def
      to_Uint8Array_def Let_def)

text \<open>
  Claim C6 as stated fails: for a value whose string conversion throws (an object
  without a primitive conversion), \<^verbatim>\<open>readFile\<close> throws the error of the conversion,
  which is not an ENOENT error, although the path is neither \<^verbatim>\<open>undefined\<close> nor
  \<^verbatim>\<open>null\<close>.
\<close>

theorem readFile_conversion_counterexample:
  "TruthyValue None \<noteq> Undefined \<and> TruthyValue None \<noteq> Null \<and>
   readFile ascii_codec MemoryFS_new (TruthyValue None) None =
     Inl (TypeError ''Cannot convert object to primitive value'')"
  by (simp add: readFile_def)




lemma ancestor_in_parents:
  assumes k: "k = CHR ''/'' # k'" and nd: "\<not> dup_slash k"
    and anc: "is_ancestor d k" and dne: "d \<noteq> ''/''"
  shows "d \<in> dirs (addParentDirs s k)"
proof -
  from anc dne have d0: "d \<noteq> []" and sp: "strict_prefix (d @ ''/'') k"
    by (auto simp: is_ancestor_def dir_prefix_def)
  from sp obtain z zs where kk: "k = (d @ ''/'') @ z # zs"
    by (rule strict_prefixE')
  define r where "r = z # zs"
  from d0 obtain c d' where d: "d = c # d'" by (cases d) auto
  with kk k have c: "c = CHR ''/''" by simp
  from dne d c have d'ne: "d' \<noteq> []" by auto
  have k': "k' = d' @ CHR ''/'' # r" using kk k d c by (simp add: r_def)
  have nodup: "\<And>a b. k \<noteq> a @ CHR ''/'' # CHR ''/'' # b"
    using nd dup_slash_iff by blast
  have h1: "hd d' \<noteq> CHR ''/''"
  proof
    assume "hd d' = CHR ''/''"
    with d'ne have "k = [] @ CHR ''/'' # CHR ''/'' # (tl d' @ CHR ''/'' # r)"
      using k k' by (cases d') auto
    with nodup show False by blast
  qed
  have h2: "last d' \<noteq> CHR ''/''"
  proof
    assume "last d' = CHR ''/''"
    with d'ne have "d' = butlast d' @ [CHR ''/'']" by (metis append_butlast_last_id)
    then have "k = (CHR ''/'' # butlast d') @ CHR ''/'' # CHR ''/'' # r"
      using k k' by (metis append_Cons append_assoc append_Nil)
    with nodup show False by blast
  qed
  have h3: "\<not> dup_slash d'"
  proof
    assume "dup_slash d'"
    then obtain a b where "d' = a @ CHR ''/'' # CHR ''/'' # b" using dup_slash_iff by blast
    then have "k = (CHR ''/'' # a) @ CHR ''/'' # CHR ''/'' # (b @ CHR ''/'' # r)"
      using k k' by simp
    with nodup show False by blast
  qed
  have h4: "z \<noteq> CHR ''/''"
  proof
    assume "z = CHR ''/''"
    then have "k = d @ CHR ''/'' # CHR ''/'' # zs" using kk by simp
    with nodup show False by blast
  qed
  have sd: "[] \<notin> set (split_slash d')"
    using split_all_nonempty [OF d'ne h1 h2 h3] .
  have "hd (split_slash r) \<noteq> []"
    using hd_split_empty [of r] h4 by (simp add: r_def)
  then have fr: "filter (\<lambda>p. p \<noteq> []) (split_slash r) \<noteq> []"
    using split_ne [of r] by (cases "split_slash r") auto
  have parts: "filter (\<lambda>p. p \<noteq> []) (split_slash k) = split_slash d' @ filter (\<lambda>p. p \<noteq> []) (split_slash r)"
    using sd by (auto simp add: k k' split_append filter_id_conv)
  have bl: "butlast (filter (\<lambda>p. p \<noteq> []) (split_slash k)) =
      split_slash d' @ butlast (filter (\<lambda>p. p \<noteq> []) (split_slash r))"
    using parts fr by (simp add: butlast_append)
  let ?i = "length (split_slash d')"
  have "0 < ?i" using split_ne [of d'] by simp
  moreover have "?i \<le> length (butlast (filter (\<lambda>p. p \<noteq> []) (split_slash k)))"
    by (simp add: bl)
  moreover have "d = [] @ concat (map ((#) CHR ''/'') (take ?i (butlast (filter (\<lambda>p. p \<noteq> []) (split_slash k)))))"
    by (simp add: bl join_split d c)
  ultimately show ?thesis
    unfolding addParentDirs_def Let_def fold_parent_step by (simp del: append_Nil) blast
qed

lemma writeFile_ancestors:
  assumes inv: "ancestors_recorded s" and w: "writeFile tc s path data = Inr s'"
    and ab: "absolute_write (WriteOp path data)"
  shows "ancestors_recorded s'"
proof (cases "path = Undefined \<or> path = Null")
  case True
  with w inv show ?thesis by (auto simp: writeFile_def)
next
  case False
  with w obtain p where sp: "String_of path = Inr p"
    by (cases "String_of path") (auto simp: writeFile_def)
  from ab False sp have abp: "prefix ''/'' p" by simp
  let ?k = "collapse_slashes p"
  let ?s1 = "s\<lparr>files := (files s)(?k \<mapsto> to_Uint8Array tc data)\<rparr>"
  have s': "s' = addParentDirs ?s1 ?k"
    using w False sp by (simp add: writeFile_def Let_def)
  from abp obtain p' where p: "p = CHR ''/'' # p'" by (cases p) auto
  obtain k' where k: "?k = CHR ''/'' # k'" using collapse_hd [of "CHR ''/''" p'] p by auto
  have nd: "\<not> dup_slash ?k" by (rule not_dup_collapse)
  have mono: "dirs s \<subseteq> dirs (addParentDirs ?s1 ?k)"
    using dirs_addParentDirs_mono [of ?s1 ?k] by simp
  have root: "''/'' \<in> dirs (addParentDirs ?s1 ?k)"
    using inv mono by (auto simp: ancestors_recorded_def)
  have "d \<in> dirs (addParentDirs ?s1 ?k)"
    if q: "q \<in> dom (files (addParentDirs ?s1 ?k))" and anc: "is_ancestor d q" for q d
  proof (cases "q = ?k")
    case True
    show ?thesis
    proof (cases "d = ''/''")
      case True
      with root show ?thesis by simp
    next
      case False
      with ancestor_in_parents [OF k nd _ False, of ?s1] anc \<open>q = ?k\<close> show ?thesis by simp
    qed
  next
    case False
    with q have "q \<in> dom (files s)" by (auto simp: files_addParentDirs split: if_splits)
    with inv anc have "d \<in> dirs s" by (auto simp: ancestors_recorded_def)
    with mono show ?thesis by blast
  qed
  with root show ?thesis unfolding s' ancestors_recorded_def by blast
qed

lemma mkdir_frame: "mkdir s path = Inr s' \<Longrightarrow> files s' = files s \<and> dirs s \<subseteq> dirs s'"
  by (auto simp: mkdir_def split: if_splits sum.splits)

lemma mkdir_ancestors:
  assumes "ancestors_recorded s" "mkdir s path = Inr s'"
  shows "ancestors_recorded s'"
proof -
  from mkdir_frame [OF assms(2)] have f: "files s' = files s" and d: "dirs s \<subseteq> dirs s'"
    by simp_all
  from assms(1) d show ?thesis
    unfolding ancestors_recorded_def f by blast
qed

lemma apply_op_ancestors:
  assumes "ancestors_recorded s" "absolute_write op"
  shows "ancestors_recorded (apply_op tc op s)"
proof (cases op)
  case (WriteOp path data)
  show ?thesis
  proof (cases "writeFile tc s path data")
    case (Inl e)
    with WriteOp assms show ?thesis by simp
  next
    case (Inr s')
    with writeFile_ancestors [OF assms(1) Inr] assms(2) WriteOp show ?thesis by simp
  qed
next
  case (MkdirOp path)
  show ?thesis
  proof (cases "mkdir s path")
    case (Inl e)
    with MkdirOp assms show ?thesis by simp
  next
    case (Inr s')
    with mkdir_ancestors [OF assms(1) Inr] MkdirOp show ?thesis by simp
  qed
qed

lemma run_ops_ancestors:
  "ancestors_recorded s \<Longrightarrow> \<forall>op \<in> set ops. absolute_write op \<Longrightarrow>
   ancestors_recorded (run_ops tc ops s)"
  unfolding run_ops_def
  by (induction ops arbitrary: s) (auto simp: apply_op_ancestors simp del: absolute_write.simps)

lemma new_ancestors: "ancestors_recorded MemoryFS_new"
  by (simp add: ancestors_recorded_def MemoryFS_new_def)

text \<open>
  Claim C7, as amended. In every state reached from a new file system by
  \<^verbatim>\<open>writeFile\<close> and \<^verbatim>\<open>mkdir\<close> calls whose written paths start with a slash, the
  root is a recorded directory and every ancestor of every stored file path is a
  recorded directory. (Nothing is promised for the ancestors of a directory recorded
  by \<^verbatim>\<open>mkdir\<close>: see the counterexample below.)
\<close>

theorem file_ancestors_recorded:
  "\<forall>op \<in> set ops. absolute_write op \<Longrightarrow> ancestors_recorded (run_ops tc ops MemoryFS_new)"
  by (rule run_ops_ancestors [OF new_ancestors])

text \<open>
  An instance: one write and one \<^verbatim>\<open>mkdir\<close>; the directory set that results.
\<close>

theorem file_ancestors_recorded_witness:
  "absolute_write (WriteOp (Str ''/a/b/c.txt'') (DataBytes [1])) \<and>
   absolute_write (MkdirOp (Str ''/x/y'')) \<and>
   ancestors_recorded (run_ops ascii_codec [WriteOp (Str ''/a/b/c.txt'') (DataBytes [1]), MkdirOp (Str ''/x/y'')] MemoryFS_new) \<and>
   dirs (run_ops ascii_codec [WriteOp (Str ''/a/b/c.txt'') (DataBytes [1]), MkdirOp (Str ''/x/y'')] MemoryFS_new) = {''/'', ''/a'', ''/a/b'', ''/x/y''}"
  using file_ancestors_recorded [of "[WriteOp (Str ''/a/b/c.txt'') (DataBytes [1]), MkdirOp (Str ''/x/y'')]" ascii_codec]
  by (auto simp: run_ops_def writeFile_def mkdir_def MemoryFS_new_def addParentDirs_def Let_def
       parent_step_def normalize_dir_def strip_trailing_slashes_def)

text \<open>
  Claim C7 as stated fails: \<^verbatim>\<open>mkdir('/a/b')\<close> on a new file system records
  \<^verbatim>\<open>/a/b\<close> but not its ancestor \<^verbatim>\<open>/a\<close>.
\<close>

theorem mkdir_ancestor_counterexample:
  "(case mkdir MemoryFS_new (Str ''/a/b'') of
      Inl e \<Rightarrow> False
    | Inr s' \<Rightarrow> ''/a/b'' \<in> dirs s' \<and> ''/a'' \<notin> dirs s') \<and>
   is_ancestor ''/a'' ''/a/b''"
  by (simp add: mkdir_def MemoryFS_new_def normalize_dir_def strip_trailing_slashes_def
      is_ancestor_def dir_prefix_def)

text \<open>
  The ancestors that \<^verbatim>\<open>mkdir\<close> leaves unrecorded are inferred by \<^verbatim>\<open>stat\<close> when
  asked, and recorded then; a file stored at the ancestor's path takes precedence.
\<close>

lemma stat_infers_mkdir_ancestor:
  "dirs (fst (stat (run_ops tc [MkdirOp (Str ''/a/b'')] MemoryFS_new) (Str ''/a''))) =
     {''/a'', ''/a/b'', ''/''} \<and>
   snd (stat (run_ops tc [MkdirOp (Str ''/a/b'')] MemoryFS_new) (Str ''/a'')) = Inr dir_stats"
  by (simp add: stat_def run_ops_def mkdir_def MemoryFS_new_def normalize_dir_def
      strip_trailing_slashes_def Let_def insert_commute)

lemma stat_file_shadows_ancestor:
  "snd (stat (run_ops tc [WriteOp (Str ''/a'') (DataBytes [1]), MkdirOp (Str ''/a/b'')]
                MemoryFS_new) (Str ''/a'')) = Inr (file_stats [1])"
  by (simp add: stat_def run_ops_def mkdir_def writeFile_def addParentDirs_def MemoryFS_new_def
      normalize_dir_def strip_trailing_slashes_def Let_def to_Uint8Array_def)

section \<open>Properties of the ingestion\<close>

lemma load_file_completes: "snd (load_file tc r f st) = Inr ()"
  by (simp add: load_file_def Let_def writeFile_def)

lemma load_files_completes: "snd (load_files tc r fl st) = Inr ()"
proof (induction fl arbitrary: st)
  case Nil
  then show ?case by simp
next
  case (Cons f fl)
  obtain st' u where lf: "load_file tc r f st = (st', u)" by (cases "load_file tc r f st")
  with load_file_completes [of tc r f st] have "u = Inr ()" by simp
  with lf Cons show ?case by simp
qed

text \<open>
  Claim C9. Loading a non-empty list of files completes and gives the state that
  loading it into the initial state gives: the prior files, directories and reader
  cache are gone before the first write. So a path that the new repository does not
  hold cannot be read afterwards, whatever was loaded before.
\<close>

theorem load_clears_prior_state:
  "fileList \<noteq> [] \<Longrightarrow>
     loadFilesIntoFs tc st fileList = loadFilesIntoFs tc initial_state fileList \<and>
     snd (loadFilesIntoFs tc st fileList) = Inr () \<and>
     (\<forall>p opts.
        files (fs (fst (loadFilesIntoFs tc initial_state fileList))) (collapse_slashes p) = None \<longrightarrow>
        (\<exists>msg. readFile tc (fs (fst (loadFilesIntoFs tc st fileList))) (Str p) opts =
           Inl (ENOENT msg)))"
  by (cases fileList)
     (auto simp: loadFilesIntoFs_def Let_def clear_def initial_state_def MemoryFS_new_def
        readFile_def load_files_completes simp del: load_files.simps)

lemma load_repoA:
  "files (fs (fst (loadFilesIntoFs ascii_codec initial_state repoA))) =
     [''/a.txt'' \<mapsto> [1], ''/sub/old.txt'' \<mapsto> [2]]"
  by (simp add: loadFilesIntoFs_def repoA_def first_segment_def load_file_def Let_def
      writeFile_def files_addParentDirs clear_def to_Uint8Array_def)

lemma load_repoB:
  "files (fs (fst (loadFilesIntoFs ascii_codec initial_state repoB))) = [''/a.txt'' \<mapsto> [3]]"
  by (simp add: loadFilesIntoFs_def repoB_def first_segment_def load_file_def Let_def
      writeFile_def files_addParentDirs clear_def to_Uint8Array_def)

text \<open>
  An instance: \<^verbatim>\<open>/sub/old.txt\<close> is readable after loading the first repository and
  fails with ENOENT after loading the second over it.
\<close>

theorem load_clears_prior_state_witness:
  "repoB \<noteq> [] \<and>
   readFile ascii_codec (fs (fst (loadFilesIntoFs ascii_codec initial_state repoA)))
     (Str ''/sub/old.txt'') None = Inr (Buffer [2]) \<and>
   (\<exists>msg. readFile ascii_codec
      (fs (fst (loadFilesIntoFs ascii_codec
                  (fst (loadFilesIntoFs ascii_codec initial_state repoA)) repoB)))
      (Str ''/sub/old.txt'') None = Inl (ENOENT msg)) \<and>
   readFile ascii_codec
      (fs (fst (loadFilesIntoFs ascii_codec
                  (fst (loadFilesIntoFs ascii_codec initial_state repoA)) repoB)))
      (Str ''/a.txt'') None = Inr (Buffer [3])"
proof -
  have ne: "repoB \<noteq> []" by (simp add: repoB_def)
  from load_clears_prior_state [OF ne, of ascii_codec
      "fst (loadFilesIntoFs ascii_codec initial_state repoA)"]
  show ?thesis
    using ne by (simp add: load_repoA load_repoB readFile_def wants_utf8_def)
qed

section \<open>Properties of the orchestrator\<close>

text \<open>
  Claim C10. When either branch argument is falsy (\<^verbatim>\<open>undefined\<close>, \<^verbatim>\<open>null\<close>, the
  empty string, or a falsy value that is not a string, such as \<^verbatim>\<open>0\<close>,
  \<^verbatim>\<open>false\<close> or \<^verbatim>\<open>NaN\<close>), \<^verbatim>\<open>generateDiff\<close> returns the empty sequence and
  makes no call to the reader, so no ref is resolved and no error is raised.
\<close>

theorem falsy_branch_returns_empty:
  "falsy baseBranch \<or> falsy compareBranch \<Longrightarrow> generateDiff fuel g baseBranch compareBranch = Some ([], Inr [])"
  by (simp add: generateDiff_def)

text \<open>
  Instances: the name \<^verbatim>\<open>nowhere\<close> would not resolve, yet with a falsy argument
  beside it the result is empty.
\<close>

theorem falsy_branch_returns_empty_witness:
  "(falsy (Str []) \<or> falsy (Str ''nowhere'')) \<and>
   generateDiff 0 sample_reader (Str []) (Str ''nowhere'') = Some ([], Inr []) \<and>
   generateDiff 0 sample_reader (Str ''nowhere'') Undefined = Some ([], Inr []) \<and>
   generateDiff 0 sample_reader Null (Str ''nowhere'') = Some ([], Inr []) \<and>
   generateDiff 0 sample_reader (Str ''nowhere'') (FalsyValue ''0'') = Some ([], Inr []) \<and>
   resolveRef sample_reader (Str ''nowhere'') = Inl (ReaderError ''NotFoundError'')"
  using falsy_branch_returns_empty [of "Str []" "Str ''nowhere''" 0 sample_reader]
        falsy_branch_returns_empty [of "Str ''nowhere''" Undefined 0 sample_reader]
        falsy_branch_returns_empty [of Null "Str ''nowhere''" 0 sample_reader]
        falsy_branch_returns_empty [of "Str ''nowhere''" "FalsyValue ''0''" 0 sample_reader]
  by (simp add: sample_reader_def)

text \<open>
  Claim C2. When both branch names resolve to the same commit identifier,
  \<^verbatim>\<open>generateDiff\<close> returns the empty sequence, and the only calls it makes are the
  two ref resolutions: no commit is read and no tree is walked.
\<close>

theorem same_commit_short_circuit:
  "resolveRef g bb = Inr c \<Longrightarrow> resolveRef g cb = Inr c \<Longrightarrow>
   generateDiff fuel g bb cb =
     Some (if falsy bb \<or> falsy cb then [] else [ResolveRef bb, ResolveRef cb], Inr [])"
  by (simp add: generateDiff_def)

text \<open>
  Instances: two names of one commit, and one name given twice.
\<close>

theorem same_commit_short_circuit_witness:
  "resolveRef sample_reader (Str ''main'') = Inr ''c1'' \<and>
   resolveRef sample_reader (Str ''alias'') = Inr ''c1'' \<and>
   generateDiff 0 sample_reader (Str ''main'') (Str ''alias'') =
     Some ([ResolveRef (Str ''main''), ResolveRef (Str ''alias'')], Inr []) \<and>
   generateDiff 0 sample_reader (Str ''main'') (Str ''main'') =
     Some ([ResolveRef (Str ''main''), ResolveRef (Str ''main'')], Inr [])"
  using same_commit_short_circuit [of sample_reader "Str ''main''" "''c1''" "Str ''alias''" 0]
        same_commit_short_circuit [of sample_reader "Str ''main''" "''c1''" "Str ''main''" 0]
  by (simp add: sample_reader_def)

lemma read_fails_simps [simp]:
  "read_fails g [] = False"
  "read_fails g (ReadTree oid # cs) = (isl (readTree g oid) \<or> read_fails g cs)"
  "read_fails g (cs @ cs') = (read_fails g cs \<or> read_fails g cs')"
  by (auto simp: read_fails_def)

lemma walkEntries_throws:
  assumes walk: "\<And>oid pre m cs m' r. walk oid pre m = Some (cs, m', r) \<Longrightarrow> isl r = read_fails g cs"
  shows "walkEntries walk es pre m = Some (cs, m', r) \<Longrightarrow> isl r = read_fails g cs"
proof (induction es arbitrary: m cs m' r)
  case Nil
  then show ?case by auto
next
  case (Cons e es)
  show ?case
  proof (cases "entry_type e")
    case Blob
    with Cons show ?thesis by (simp add: Let_def)
  next
    case OtherType
    with Cons show ?thesis by (simp add: Let_def)
  next
    case Tree
    let ?fp = "if pre \<noteq> [] then pre @ ''/'' @ entry_path e else entry_path e"
    from Cons.prems Tree obtain cs1 m1 r1 where w: "walk (entry_oid e) ?fp m = Some (cs1, m1, r1)"
      by (auto simp: Let_def split: option.splits)
    note w1 = walk [OF w]
    show ?thesis
    proof (cases r1)
      case (Inl x)
      with Cons.prems Tree w w1 show ?thesis by (auto simp: Let_def)
    next
      case (Inr u)
      with Cons.prems Tree w obtain cs2 where
        rest: "walkEntries walk es pre m1 = Some (cs2, m', r)" and cs: "cs = cs1 @ cs2"
        by (auto simp: Let_def split: option.splits)
      from Cons.IH [OF rest] w1 Inr cs show ?thesis by simp
    qed
  qed
qed

lemma walkTree_throws:
  "walkTree fuel g oid pre m = Some (cs, m', r) \<Longrightarrow> isl r = read_fails g cs"
proof (induction fuel arbitrary: oid pre m cs m' r)
  case 0
  then show ?case by simp
next
  case (Suc n)
  show ?case
  proof (cases "readTree g oid")
    case (Inl e)
    with Suc.prems show ?thesis by auto
  next
    case (Inr entries)
    with Suc.prems obtain cs0 where
      we: "walkEntries (walkTree n g) entries pre m = Some (cs0, m', r)" and cs: "cs = ReadTree oid # cs0"
      by (auto split: option.splits)
    have "isl r = read_fails g cs0"
      using walkEntries_throws [where walk = "walkTree n g" and g = g, OF Suc.IH we] .
    with cs Inr show ?thesis by simp
  qed
qed

text \<open>Fuel only bounds the depth: a walk that returns does so with any larger fuel.\<close>

lemma walkEntries_mono:
  assumes "\<And>oid pre m r. walk oid pre m = Some r \<Longrightarrow> walk' oid pre m = Some r"
  shows "walkEntries walk es pre m = Some r \<Longrightarrow> walkEntries walk' es pre m = Some r"
proof (induction es arbitrary: m r)
  case Nil
  then show ?case by simp
next
  case (Cons e es)
  show ?case
  proof (cases "entry_type e")
    case Blob
    with Cons show ?thesis by (simp add: Let_def)
  next
    case OtherType
    with Cons show ?thesis by (simp add: Let_def)
  next
    case Tree
    let ?fp = "if pre \<noteq> [] then pre @ ''/'' @ entry_path e else entry_path e"
    from Cons.prems Tree obtain cs1 m1 r1 where w: "walk (entry_oid e) ?fp m = Some (cs1, m1, r1)"
      by (auto simp: Let_def split: option.splits)
    note w' = assms [OF w]
    show ?thesis
    proof (cases r1)
      case (Inl x)
      with Cons.prems Tree w w' show ?thesis by (auto simp: Let_def)
    next
      case (Inr u)
      with Cons.prems Tree w obtain cs2 m2 r2 where
        rest: "walkEntries walk es pre m1 = Some (cs2, m2, r2)" and r: "r = (cs1 @ cs2, m2, r2)"
        by (auto simp: Let_def split: option.splits)
      from Cons.IH [OF rest] w' Inr r Tree show ?thesis by (simp add: Let_def)
    qed
  qed
qed

lemma walkTree_Suc:
  "walkTree n g oid pre m = Some r \<Longrightarrow> walkTree (Suc n) g oid pre m = Some r"
proof (induction n arbitrary: oid pre m r)
  case 0
  then show ?case by simp
next
  case (Suc n)
  show ?case
  proof (cases "readTree g oid")
    case (Inl e)
    with Suc.prems show ?thesis by simp
  next
    case (Inr entries)
    with Suc.prems obtain r0 where
      we: "walkEntries (walkTree n g) entries pre m = Some r0"
      by (auto split: option.splits)
    have "walkEntries (walkTree (Suc n) g) entries pre m = Some r0"
      by (rule walkEntries_mono [where walk = "walkTree n g", OF Suc.IH we])
    with Suc.prems Inr we show ?thesis by (auto split: option.splits prod.splits)
  qed
qed

lemma walkTree_more_fuel:
  "walkTree n g oid pre m = Some r \<Longrightarrow> walkTree (n + k) g oid pre m = Some r"
  by (induction k) (auto dest: walkTree_Suc)

lemma listTreeFiles_more_fuel:
  "listTreeFiles n g t = Some r \<Longrightarrow> listTreeFiles (n + k) g t = Some r"
  by (auto simp: listTreeFiles_def walkTree_more_fuel split: option.splits prod.splits sum.splits)

lemma generateDiff_more_fuel:
  "generateDiff n g b c = Some r \<Longrightarrow> generateDiff (n + k) g b c = Some r"
  unfolding generateDiff_def
  by (auto simp: Let_def listTreeFiles_more_fuel split: if_splits sum.splits option.splits prod.splits)

lemma generateDiff_walks:
  assumes "\<not> falsy bb" "\<not> falsy cb"
    and "resolveRef g bb = Inr bc" "resolveRef g cb = Inr cc" "bc \<noteq> cc"
    and "readCommit g bc = Inr bt" "readCommit g cc = Inr ct"
    and "walkTree fuel g bt [] [] = Some (cs1, m1, r1)"
    and "walkTree fuel g ct [] [] = Some (cs2, m2, r2)"
  shows "generateDiff fuel g bb cb =
     Some ([ResolveRef bb, ResolveRef cb, ReadCommit bc, ReadCommit cc] @ cs1 @ cs2 @
             fst (diffTrees g bb cb (if isl r1 then [] else m1) (if isl r2 then [] else m2)),
           Inr (snd (diffTrees g bb cb (if isl r1 then [] else m1) (if isl r2 then [] else m2))))"
  using assms
  by (cases r1; cases r2)
     (simp_all add: generateDiff_def listTreeFiles_def files_or_empty_def split: prod.splits)

text \<open>
  Claim C3. When the walk of a side's tree meets a tree read that throws, the
  reconciliation runs with the empty index for that side, whatever the walk had put
  into its \<^verbatim>\<open>fileMap\<close> before the failure (\<open>m1\<close>, \<open>m2\<close>).
\<close>

theorem failed_walk_side_is_empty:
  assumes "\<not> falsy bb" "\<not> falsy cb"
    and "resolveRef g bb = Inr bc" "resolveRef g cb = Inr cc" "bc \<noteq> cc"
    and "readCommit g bc = Inr bt" "readCommit g cc = Inr ct"
    and "walkTree fuel g bt [] [] = Some (cs1, m1, r1)"
    and "walkTree fuel g ct [] [] = Some (cs2, m2, r2)"
  shows "generateDiff fuel g bb cb =
     Some ([ResolveRef bb, ResolveRef cb, ReadCommit bc, ReadCommit cc] @ cs1 @ cs2 @
             fst (diffTrees g bb cb (if read_fails g cs1 then [] else m1)
                                    (if read_fails g cs2 then [] else m2)),
           Inr (snd (diffTrees g bb cb (if read_fails g cs1 then [] else m1)
                                       (if read_fails g cs2 then [] else m2))))"
  using generateDiff_walks [OF assms] walkTree_throws [OF assms(8)] walkTree_throws [OF assms(9)]
  by simp

lemma sample_walk_t1:
  "walkTree 2 sample_reader ''t1'' [] [] =
     Some ([ReadTree ''t1'', ReadTree ''t9''], [(''a.txt'', ''b1'')], Inl (ReaderError ''NotFoundError''))"
  by (simp add: sample_reader_def numeral_2_eq_2 Let_def set_prop_def)

lemma sample_walk_t2:
  "walkTree 2 sample_reader ''t2'' [] [] =
     Some ([ReadTree ''t2''], [(''a.txt'', ''b2''), (''bin.dat'', ''b3'')], Inr ())"
  by (simp add: sample_reader_def numeral_2_eq_2 Let_def set_prop_def)


lemma sample_facts:
  "resolveRef sample_reader (Str ''main'') = Inr ''c1''" "resolveRef sample_reader (Str ''dev'') = Inr ''c2''"
  "readCommit sample_reader ''c1'' = Inr ''t1''" "readCommit sample_reader ''c2'' = Inr ''t2''"
  by (simp_all add: sample_reader_def)

lemma sample_texts:
  "textDecode ascii_codec [104, 105] = ''hi''"
  "textDecode ascii_codec [104, 111] = ''ho''"
  "textDecode ascii_codec [1, 0, 2] = [CHR 0x01, CHR 0x00, CHR 0x02]"
  by code_simp+

lemma sample_codec: "codec sample_reader = ascii_codec"
  by (simp add: sample_reader_def)

lemma sample_readBlob:
  "readBlob sample_reader (VString ''b1'') = Inr [104, 105]"
  "readBlob sample_reader (VString ''b2'') = Inr [104, 111]"
  "readBlob sample_reader (VString ''b3'') = Inr [1, 0, 2]"
  "readBlob sample_reader (VInherited k) = Inl (ReaderError ''NotFoundError'')"
  by (simp_all add: sample_reader_def)

lemma sample_differ:
  "createPatch sample_reader = sample_differ_create"
  "parsePatch sample_reader = sample_differ_parse"
  by (simp_all add: sample_reader_def)

lemma sample_diff:
  "diffTrees sample_reader (Str ''main'') (Str ''dev'') [] [(''a.txt'', ''b2''), (''bin.dat'', ''b3'')] =
     ([ReadBlob (VString ''b2''), ReadBlob (VString ''b3'')],
      [\<lparr>filename = ''a.txt'', status = Added, hunks = [\<lparr>header = ''@@'', lines = [''a.txt'']\<rparr>]\<rparr>])"
  by (simp add: diffTrees_def allPaths_def new_Set_def Set_add_def Object_keys_def diffPath_def
      get_prop_def or_null_def Object_prototype_names_def status_of_def fetchText_def
      sample_codec sample_readBlob sample_differ sample_texts isBinary_def
      sample_differ_create_def sample_differ_parse_def Let_def)

text \<open>
  An instance: the walk of the base tree has recorded \<^verbatim>\<open>a.txt\<close> when a subtree
  read fails; the base side counts as empty, so \<^verbatim>\<open>a.txt\<close> is reported as added.
\<close>

theorem failed_walk_side_is_empty_witness:
  "walkTree 2 sample_reader ''t1'' [] [] =
     Some ([ReadTree ''t1'', ReadTree ''t9''], [(''a.txt'', ''b1'')], Inl (ReaderError ''NotFoundError'')) \<and>
   read_fails sample_reader [ReadTree ''t1'', ReadTree ''t9''] \<and>
   generateDiff 2 sample_reader (Str ''main'') (Str ''dev'') =
     Some ([ResolveRef (Str ''main''), ResolveRef (Str ''dev''), ReadCommit ''c1'', ReadCommit ''c2'',
            ReadTree ''t1'', ReadTree ''t9'', ReadTree ''t2'',
            ReadBlob (VString ''b2''), ReadBlob (VString ''b3'')],
           Inr [\<lparr>filename = ''a.txt'', status = Added,
                 hunks = [\<lparr>header = ''@@'', lines = [''a.txt'']\<rparr>]\<rparr>])"
proof -
  have rf1: "read_fails sample_reader [ReadTree ''t1'', ReadTree ''t9'']"
    by (simp add: sample_reader_def)
  have rf2: "\<not> read_fails sample_reader [ReadTree ''t2'']"
    by (simp add: sample_reader_def)
  have ne: "\<not> falsy (Str ''main'')" "\<not> falsy (Str ''dev'')" "''c1'' \<noteq> ''c2''"
    by simp_all
  show ?thesis
    using failed_walk_side_is_empty [OF ne(1) ne(2) sample_facts(1) sample_facts(2) ne(3)
        sample_facts(3) sample_facts(4) sample_walk_t1 sample_walk_t2] rf1 rf2
    by (simp add: sample_walk_t1 sample_diff)
qed

lemma diffPath_Some:
  assumes "diffPath g bb cb bf cf p = (cs, Some d)"
  shows "filename d = p \<and> (\<exists>t. fetched_text g bf p = Inr t \<and> \<not> isBinary t) \<and>
         (\<exists>t. fetched_text g cf p = Inr t \<and> \<not> isBinary t)"
  using assms
  by (auto simp: diffPath_def fetched_text_def Let_def
      split: if_splits prod.splits sum.splits list.splits)

lemma diffLoop_member:
  "d \<in> set (snd (diffLoop g bb cb bf cf ps)) \<Longrightarrow>
     \<exists>p \<in> set ps. \<exists>cs. diffPath g bb cb bf cf p = (cs, Some d)"
  by (induction ps) (auto split: prod.splits option.splits)

lemma diffTrees_binary:
  assumes "(\<exists>t. fetched_text g bf p = Inr t \<and> isBinary t) \<or> (\<exists>t. fetched_text g cf p = Inr t \<and> isBinary t)"
  shows "p \<notin> filename ` set (snd (diffTrees g bb cb bf cf))"
proof
  assume "p \<in> filename ` set (snd (diffTrees g bb cb bf cf))"
  then obtain d where d: "d \<in> set (snd (diffTrees g bb cb bf cf))" and fd: "filename d = p" by auto
  from diffLoop_member [OF d [unfolded diffTrees_def]] obtain q cs where
    "diffPath g bb cb bf cf q = (cs, Some d)" by blast
  from diffPath_Some [OF this] fd assms show False by auto
qed

lemma generateDiff_lists:
  assumes "\<not> falsy bb" "\<not> falsy cb"
    and "resolveRef g bb = Inr bc" "resolveRef g cb = Inr cc" "bc \<noteq> cc"
    and "readCommit g bc = Inr bt" "readCommit g cc = Inr ct"
    and "listTreeFiles fuel g bt = Some (cs1, r1)"
    and "listTreeFiles fuel g ct = Some (cs2, r2)"
  shows "generateDiff fuel g bb cb =
     Some ([ResolveRef bb, ResolveRef cb, ReadCommit bc, ReadCommit cc] @ cs1 @ cs2 @
             fst (diffTrees g bb cb (files_or_empty r1) (files_or_empty r2)),
           Inr (snd (diffTrees g bb cb (files_or_empty r1) (files_or_empty r2))))"
  using assms by (simp add: generateDiff_def split: prod.splits)

text \<open>
  Claim C4. When the text fetched for a path on the base side or on the compare
  side contains a NUL character, the result of \<^verbatim>\<open>generateDiff\<close> has no entry for
  that path.
\<close>

theorem binary_paths_omitted:
  assumes "\<not> falsy bb" "\<not> falsy cb"
    and "resolveRef g bb = Inr bc" "resolveRef g cb = Inr cc" "bc \<noteq> cc"
    and "readCommit g bc = Inr bt" "readCommit g cc = Inr ct"
    and "listTreeFiles fuel g bt = Some (cs1, r1)"
    and "listTreeFiles fuel g ct = Some (cs2, r2)"
    and "(\<exists>t. fetched_text g (files_or_empty r1) p = Inr t \<and> isBinary t) \<or>
         (\<exists>t. fetched_text g (files_or_empty r2) p = Inr t \<and> isBinary t)"
  shows "\<exists>cs diffResults. generateDiff fuel g bb cb = Some (cs, Inr diffResults) \<and>
           p \<notin> filename ` set diffResults"
  using generateDiff_lists [OF assms(1-9)] diffTrees_binary [OF assms(10)] by simp

lemma sample_list_t1:
  "listTreeFiles 2 sample_reader ''t1'' =
     Some ([ReadTree ''t1'', ReadTree ''t9''], Inl (ReaderError ''NotFoundError''))"
  by (simp add: listTreeFiles_def sample_walk_t1)

lemma sample_list_t2:
  "listTreeFiles 2 sample_reader ''t2'' =
     Some ([ReadTree ''t2''], Inr [(''a.txt'', ''b2''), (''bin.dat'', ''b3'')])"
  by (simp add: listTreeFiles_def sample_walk_t2)

text \<open>
  An instance: \<^verbatim>\<open>bin.dat\<close> exists only on the compare side, its content has a NUL
  byte, and the result has no entry for it.
\<close>

theorem binary_paths_omitted_witness:
  "fetched_text sample_reader [(''a.txt'', ''b2''), (''bin.dat'', ''b3'')] ''bin.dat'' =
     Inr [CHR 0x01, CHR 0x00, CHR 0x02] \<and>
   isBinary [CHR 0x01, CHR 0x00, CHR 0x02] \<and>
   or_null (get_prop [] ''bin.dat'') \<noteq>
     or_null (get_prop [(''a.txt'', ''b2''), (''bin.dat'', ''b3'')] ''bin.dat'') \<and>
   (\<exists>cs diffResults.
      generateDiff 2 sample_reader (Str ''main'') (Str ''dev'') = Some (cs, Inr diffResults) \<and>
      ''bin.dat'' \<notin> filename ` set diffResults)"
proof -
  have ft: "fetched_text sample_reader [(''a.txt'', ''b2''), (''bin.dat'', ''b3'')] ''bin.dat'' =
      Inr [CHR 0x01, CHR 0x00, CHR 0x02]"
    by (simp add: fetched_text_def fetchText_def or_null_def get_prop_def sample_codec
        sample_readBlob sample_texts)
  have bin: "isBinary [CHR 0x01, CHR 0x00, CHR 0x02]" by (simp add: isBinary_def)
  have ne: "\<not> falsy (Str ''main'')" "\<not> falsy (Str ''dev'')" "''c1'' \<noteq> ''c2''"
    by simp_all
  have h: "(\<exists>t. fetched_text sample_reader (files_or_empty (Inl (ReaderError ''NotFoundError'')))
              ''bin.dat'' = Inr t \<and> isBinary t) \<or>
         (\<exists>t. fetched_text sample_reader
              (files_or_empty (Inr [(''a.txt'', ''b2''), (''bin.dat'', ''b3'')])) ''bin.dat'' = Inr t \<and>
              isBinary t)"
    using ft bin by (simp add: files_or_empty_def)
  have diff: "or_null (get_prop [] ''bin.dat'') \<noteq>
      or_null (get_prop [(''a.txt'', ''b2''), (''bin.dat'', ''b3'')] ''bin.dat'')"
    by (simp add: or_null_def get_prop_def Object_prototype_names_def)
  show ?thesis
    using binary_paths_omitted [OF ne(1) ne(2) sample_facts(1) sample_facts(2) ne(3)
        sample_facts(3) sample_facts(4) sample_list_t1 sample_list_t2 h] ft bin diff
    by simp
qed

lemma set_Set_fold: "set (fold (\<lambda>x acc. Set_add acc x) xs acc) = set acc \<union> set xs"
  by (induction xs arbitrary: acc) (auto simp: Set_add_def)

lemma distinct_Set_fold: "distinct acc \<Longrightarrow> distinct (fold (\<lambda>x acc. Set_add acc x) xs acc)"
  by (induction xs arbitrary: acc) (auto simp: Set_add_def)

lemma set_allPaths: "set (allPaths bf cf) = fst ` set bf \<union> fst ` set cf"
  by (simp add: allPaths_def new_Set_def set_Set_fold Object_keys_def)

lemma distinct_allPaths: "distinct (allPaths bf cf)"
  by (simp add: allPaths_def new_Set_def distinct_Set_fold)

lemma or_null_get_prop:
  assumes "p \<notin> set Object_prototype_names" "real_oids fileMap"
  shows "or_null (get_prop fileMap p) = (case map_of fileMap p of None \<Rightarrow> VNull | Some v \<Rightarrow> VString v)"
proof (cases "map_of fileMap p")
  case None
  with assms show ?thesis by (simp add: or_null_def get_prop_def)
next
  case (Some v)
  then have "(p, v) \<in> set fileMap" by (rule map_of_SomeD)
  with assms(2) have "v \<noteq> []" by (force simp: real_oids_def)
  with Some show ?thesis by (simp add: or_null_def get_prop_def)
qed

lemma diffPath_equal:
  "or_null (get_prop bf p) = or_null (get_prop cf p) \<Longrightarrow> diffPath g bb cb bf cf p = ([], None)"
  by (simp add: diffPath_def Let_def)

lemma diffPath_status:
  assumes "diffPath g bb cb bf cf p = (cs, Some d)"
  shows "status d = status_of (or_null (get_prop bf p)) (or_null (get_prop cf p)) \<and>
         or_null (get_prop bf p) \<noteq> or_null (get_prop cf p)"
  using assms
  by (auto simp: diffPath_def Let_def
      split: if_splits prod.splits sum.splits list.splits)

text \<open>
  On a path that is not the name of a member of \<^verbatim>\<open>Object.prototype\<close>, and with
  non-empty content identifiers, the reconciliation does what is expected of it: a
  path with the same identifier on both sides is skipped, and any other is classified
  \<open>Added\<close> when the base index lacks it, \<open>Deleted\<close> when the compare index lacks it
  and \<open>Modified\<close> otherwise.
\<close>

lemma reconcile_ordinary_paths:
  assumes "p \<notin> set Object_prototype_names" "real_oids bf" "real_oids cf"
  shows "(map_of bf p = map_of cf p \<longrightarrow> diffPath g bb cb bf cf p = ([], None)) \<and>
         (map_of bf p \<noteq> map_of cf p \<longrightarrow>
            status_of (or_null (get_prop bf p)) (or_null (get_prop cf p)) =
              (if map_of bf p = None then Added
               else if map_of cf p = None then Deleted else Modified))"
proof -
  note b = or_null_get_prop [OF assms(1) assms(2)]
  note c = or_null_get_prop [OF assms(1) assms(3)]
  have "map_of bf p = map_of cf p \<Longrightarrow> diffPath g bb cb bf cf p = ([], None)"
    by (rule diffPath_equal) (simp add: b c)
  moreover have "status_of (or_null (get_prop bf p)) (or_null (get_prop cf p)) =
      (if map_of bf p = None then Added else if map_of cf p = None then Deleted else Modified)"
    if "map_of bf p \<noteq> map_of cf p"
  proof (cases "map_of bf p")
    case None
    with that obtain w where "map_of cf p = Some w" by (cases "map_of cf p") auto
    with None assms(3) have "w \<noteq> []" by (force simp: real_oids_def dest: map_of_SomeD)
    with None \<open>map_of cf p = Some w\<close> show ?thesis by (simp add: b c status_of_def)
  next
    case (Some v)
    with assms(2) have v: "v \<noteq> []" by (force simp: real_oids_def dest: map_of_SomeD)
    show ?thesis
    proof (cases "map_of cf p")
      case None
      with Some v show ?thesis by (simp add: b c status_of_def)
    next
      case (Some w)
      with assms(3) have "w \<noteq> []" by (force simp: real_oids_def dest: map_of_SomeD)
      with Some \<open>map_of bf p = Some v\<close> v show ?thesis by (simp add: b c status_of_def)
    qed
  qed
  ultimately show ?thesis by blast
qed

lemma never_added:
  "set (map status (snd (diffTrees g bb cb [] [(''constructor'', ''b2'')]))) \<subseteq> {Modified}"
  by (auto simp: diffTrees_def allPaths_def new_Set_def Set_add_def Object_keys_def diffPath_def
      get_prop_def or_null_def Object_prototype_names_def status_of_def Let_def
      split: prod.splits sum.splits list.splits if_splits)

text \<open>
  Claim C1 fails on a path named like a member of \<^verbatim>\<open>Object.prototype\<close>. With an
  empty base index and \<^verbatim>\<open>constructor\<close> in the compare index, the path is absent in
  base, yet \<^verbatim>\<open>baseFiles[filepath]\<close> yields the inherited member: the status computed
  is \<open>Modified\<close>, not \<open>Added\<close>, whatever the reader and the differencer do; with the
  sample reader, which has no blob for such an identifier, the path is dropped from the
  result. An ordinary path in the same position is reported as added.
\<close>

theorem inherited_key_misclassified:
  "allPaths [] [(''constructor'', ''b2'')] = [''constructor''] \<and>
   map_of ([] :: js_object) ''constructor'' = None \<and>
   or_null (get_prop [] ''constructor'') = VInherited ''constructor'' \<and>
   status_of (or_null (get_prop [] ''constructor''))
             (or_null (get_prop [(''constructor'', ''b2'')] ''constructor'')) = Modified \<and>
   set (map status (snd (diffTrees g bb cb [] [(''constructor'', ''b2'')]))) \<subseteq> {Modified} \<and>
   diffTrees sample_reader (Str ''main'') (Str ''dev'') [] [(''constructor'', ''b2'')] =
     ([ReadBlob (VInherited ''constructor'')], []) \<and>
   diffTrees sample_reader (Str ''main'') (Str ''dev'') [] [(''plain.txt'', ''b2'')] =
     ([ReadBlob (VString ''b2'')],
      [\<lparr>filename = ''plain.txt'', status = Added,
        hunks = [\<lparr>header = ''@@'', lines = [''plain.txt'']\<rparr>]\<rparr>])"
proof -
  have "diffTrees sample_reader (Str ''main'') (Str ''dev'') [] [(''constructor'', ''b2'')] =
      ([ReadBlob (VInherited ''constructor'')], [])"
    "diffTrees sample_reader (Str ''main'') (Str ''dev'') [] [(''plain.txt'', ''b2'')] =
      ([ReadBlob (VString ''b2'')],
       [\<lparr>filename = ''plain.txt'', status = Added,
         hunks = [\<lparr>header = ''@@'', lines = [''plain.txt'']\<rparr>]\<rparr>])"
    by (simp_all add: diffTrees_def allPaths_def new_Set_def Set_add_def Object_keys_def
        diffPath_def get_prop_def or_null_def Object_prototype_names_def status_of_def
        fetchText_def sample_codec sample_readBlob sample_differ sample_texts isBinary_def
        sample_differ_create_def sample_differ_parse_def Let_def)
  moreover have "allPaths [] [(''constructor'', ''b2'')] = [''constructor'']"
    by (simp add: allPaths_def new_Set_def Set_add_def Object_keys_def)
  moreover have "or_null (get_prop [] ''constructor'') = VInherited ''constructor''"
    "status_of (or_null (get_prop [] ''constructor''))
       (or_null (get_prop [(''constructor'', ''b2'')] ''constructor'')) = Modified"
    by (simp_all add: get_prop_def or_null_def Object_prototype_names_def status_of_def)
  ultimately show ?thesis
    using never_added [of g bb cb] by simp
qed

end
